theory Spec2Isabelle
  imports Complex_Main
begin

section \<open>Python text primitives\<close>

text \<open>
  Python \<open>str\<close> values are modelled as \<open>string\<close> over ASCII text. The character
  classes below are the ASCII part of the classes the source relies on
  (\<open>str.isspace\<close>, the line boundaries of \<open>str.splitlines\<close>, \<open>\d\<close>, \<open>\w\<close>);
  a character above 127 is treated as a printable symbol that is neither a letter, a
  digit nor a space. Python floats are modelled by their exact rational values.
\<close>

definition LF :: char where "LF = CHR 0x0A"
definition CR :: char where "CR = CHR 0x0D"
definition BACKSLASH :: char where "BACKSLASH = CHR 0x5C"
definition QUOTE :: char where "QUOTE = CHR 0x27"
definition DQUOTE :: char where "DQUOTE = CHR 0x22"

definition is_space :: "char \<Rightarrow> bool" where
  \<comment> \<open>\<open>str.isspace\<close> and the regex class \<open>\s\<close>: TAB, LF, VT, FF, CR, FS, GS, RS, US, SPACE\<close>
  "is_space c = (c \<in> {CHR 0x09, CHR 0x0A, CHR 0x0B, CHR 0x0C, CHR 0x0D,
                        CHR 0x1C, CHR 0x1D, CHR 0x1E, CHR 0x1F, CHR 0x20})"

definition is_linebreak :: "char \<Rightarrow> bool" where
  \<comment> \<open>the line boundaries of \<open>str.splitlines\<close>: LF, VT, FF, CR, FS, GS, RS\<close>
  "is_linebreak c = (c \<in> {CHR 0x0A, CHR 0x0B, CHR 0x0C, CHR 0x0D, CHR 0x1C, CHR 0x1D, CHR 0x1E})"

definition is_digit :: "char \<Rightarrow> bool" where
  "is_digit c = (48 \<le> (of_char c :: nat) \<and> (of_char c :: nat) \<le> 57)"

definition is_upper :: "char \<Rightarrow> bool" where
  "is_upper c = (65 \<le> (of_char c :: nat) \<and> (of_char c :: nat) \<le> 90)"

definition is_lower :: "char \<Rightarrow> bool" where
  "is_lower c = (97 \<le> (of_char c :: nat) \<and> (of_char c :: nat) \<le> 122)"

definition is_word_char :: "char \<Rightarrow> bool" where
  \<comment> \<open>the regex class \<open>\w\<close>\<close>
  "is_word_char c = (is_upper c \<or> is_lower c \<or> is_digit c \<or> c = CHR ''_'')"

definition lower_char :: "char \<Rightarrow> char" where
  "lower_char c = (if is_upper c then char_of ((of_char c :: nat) + 32) else c)"

definition lower :: "string \<Rightarrow> string" where
  \<comment> \<open>\<open>str.lower\<close>\<close>
  "lower s = map lower_char s"

definition strip :: "string \<Rightarrow> string" where
  \<comment> \<open>\<open>str.strip()\<close>: leading and trailing whitespace removed\<close>
  "strip s = rev (dropWhile is_space (rev (dropWhile is_space s)))"

fun starts_with :: "string \<Rightarrow> string \<Rightarrow> bool" where
  "starts_with s [] = True"
| "starts_with [] (w # ws) = False"
| "starts_with (c # cs) (w # ws) = (c = w \<and> starts_with cs ws)"

fun contains :: "string \<Rightarrow> string \<Rightarrow> bool" where
  \<comment> \<open>Python's \<open>w in s\<close> on strings: \<open>w\<close> occurs in \<open>s\<close> as a contiguous substring\<close>
  "contains [] w = (w = [])"
| "contains (c # cs) w = (starts_with (c # cs) w \<or> contains cs w)"

fun splitlines_from :: "string \<Rightarrow> string \<Rightarrow> string list" where
  \<comment> \<open>\<open>splitlines_from cur s\<close>: the lines of \<open>s\<close>, \<open>cur\<close> being the line read so far\<close>
  "splitlines_from cur [] = (if cur = [] then [] else [cur])"
| "splitlines_from cur [c] = (if is_linebreak c then [cur] else [cur @ [c]])"
| "splitlines_from cur (c # d # cs) =
     (if c = CR \<and> d = LF then cur # splitlines_from [] cs
      else if is_linebreak c then cur # splitlines_from [] (d # cs)
      else splitlines_from (cur @ [c]) (d # cs))"

definition splitlines :: "string \<Rightarrow> string list" where
  \<comment> \<open>\<open>str.splitlines()\<close>: CR LF is one boundary; no empty last line after a final boundary\<close>
  "splitlines s = splitlines_from [] s"

fun split_from :: "string \<Rightarrow> string \<Rightarrow> string list" where
  "split_from cur [] = (if cur = [] then [] else [cur])"
| "split_from cur (c # cs) =
     (if is_space c then (if cur = [] then split_from [] cs else cur # split_from [] cs)
      else split_from (cur @ [c]) cs)"

definition split_str :: "string \<Rightarrow> string list" where
  \<comment> \<open>\<open>str.split()\<close>: the maximal runs of non-whitespace characters\<close>
  "split_str s = split_from [] s"

definition join :: "string \<Rightarrow> string list \<Rightarrow> string" where
  \<comment> \<open>\<open>sep.join(xs)\<close>\<close>
  "join sep xs = (case xs of [] \<Rightarrow> [] | y # ys \<Rightarrow> y @ concat (map (\<lambda>z. sep @ z) ys))"

definition digit_char :: "nat \<Rightarrow> char" where
  "digit_char d = char_of (48 + d)"

function str_nat :: "nat \<Rightarrow> string" where
  "str_nat n = (if n < 10 then [digit_char n] else str_nat (n div 10) @ [digit_char (n mod 10)])"
  by pat_completeness auto
termination
  by (relation "measure (\<lambda>n. n)") auto

definition str_int :: "int \<Rightarrow> string" where
  \<comment> \<open>\<open>str(i)\<close> of a Python int\<close>
  "str_int i = (if i < 0 then CHR ''-'' # str_nat (nat (- i)) else str_nat (nat i))"

definition hex_char :: "nat \<Rightarrow> char" where
  "hex_char d = (if d < 10 then char_of (48 + d) else char_of (87 + d))"

definition repr_char :: "char \<Rightarrow> char \<Rightarrow> string" where
  \<comment> \<open>one character inside \<open>repr\<close> of a str delimited by the quote character \<open>q\<close>\<close>
  "repr_char q c =
     (if c = BACKSLASH \<or> c = q then [BACKSLASH, c]
      else if c = CHR 0x09 then [BACKSLASH, CHR ''t'']
      else if c = LF then [BACKSLASH, CHR ''n'']
      else if c = CR then [BACKSLASH, CHR ''r'']
      else if (of_char c :: nat) < 32 \<or> (of_char c :: nat) = 127
        then [BACKSLASH, CHR ''x'', hex_char ((of_char c :: nat) div 16), hex_char ((of_char c :: nat) mod 16)]
      else [c])"

definition repr_str :: "string \<Rightarrow> string" where
  \<comment> \<open>\<open>repr(s)\<close>: double quotes only when \<open>s\<close> has a single quote and no double quote\<close>
  "repr_str s =
     (let q = (if QUOTE \<in> set s \<and> DQUOTE \<notin> set s then DQUOTE else QUOTE)
      in q # concat (map (repr_char q) s) @ [q])"

definition str_list :: "string list \<Rightarrow> string" where
  \<comment> \<open>\<open>str(xs)\<close> of a list of str\<close>
  "str_list xs = ''['' @ join '', '' (map repr_str xs) @ '']''"

definition py_round :: "rat \<Rightarrow> nat \<Rightarrow> rat" where
  \<comment> \<open>\<open>round(x, n)\<close>: to the nearest multiple of \<open>10^-n\<close>, a tie to the even one\<close>
  "py_round x n =
     (let y = x * of_nat (10 ^ n); f = \<lfloor>y\<rfloor>; r = y - of_int f
      in of_int (if r < 1 / 2 then f else if 1 / 2 < r then f + 1
                 else if even f then f else f + 1) / of_nat (10 ^ n))"

section \<open>Guardrails (utils/guardrails.py, backend/main.py)\<close>

definition allowed_keywords :: "string list" where
  "allowed_keywords =
     [''integrate'', ''differentiate'', ''derivative'', ''equation'', ''matrix'',
      ''limit'', ''solve'', ''find'', ''function'', ''value'', ''graph'', ''area'', ''volume'']"

definition banned_keywords :: "string list" where
  "banned_keywords = [''violence'', ''religion'', ''politics'', ''hack'', ''illegal'', ''suicide'']"

definition input_guardrail :: "string \<Rightarrow> bool" where
  "input_guardrail question = list_ex (\<lambda>word. contains (lower question) word) allowed_keywords"

definition output_guardrail :: "string \<Rightarrow> bool" where
  "output_guardrail text = (\<not> list_ex (\<lambda>bad. contains (lower text) bad) banned_keywords)"

section \<open>Result parser of backend/main.py\<close>

definition dot_star_end :: "string \<Rightarrow> string option" where
  \<comment> \<open>the regex tail \<open>(.*)$\<close>: the dot excludes LF, and \<open>$\<close> also matches before one last LF\<close>
  "dot_star_end r =
     (if LF \<notin> set r then Some r
      else if r \<noteq> [] \<and> last r = LF \<and> LF \<notin> set (butlast r) then Some (butlast r)
      else None)"

definition match_step :: "string \<Rightarrow> string option" where
  \<comment> \<open>\<open>re.match(r'^(\d+)\s*[\.\)]\s*(.*)$', ln)\<close>, returning group 2\<close>
  "match_step line =
     (if takeWhile is_digit line = [] then None
      else case dropWhile is_space (dropWhile is_digit line) of
             [] \<Rightarrow> None
           | c # r \<Rightarrow> if c = CHR ''.'' \<or> c = CHR '')'' then dot_star_end (dropWhile is_space r)
                      else None)"

definition final_tail :: "string \<Rightarrow> string option" where
  \<comment> \<open>the regex tail \<open>\s*[:\-]\s*(.*)$\<close>\<close>
  "final_tail r =
     (case dropWhile is_space r of
        [] \<Rightarrow> None
      | c # r' \<Rightarrow> if c = CHR '':'' \<or> c = CHR ''-'' then dot_star_end (dropWhile is_space r')
                 else None)"

definition match_final :: "string \<Rightarrow> string option" where
  \<comment> \<open>\<open>re.match(r'^(final answer|answer)\s*[:\-]\s*(.*)$', ln, flags=re.I)\<close>, returning group 2\<close>
  "match_final line =
     (if starts_with (lower line) ''final answer'' then final_tail (drop 12 line)
      else if starts_with (lower line) ''answer'' then final_tail (drop 6 line)
      else None)"

fun math_search :: "char option \<Rightarrow> string \<Rightarrow> bool" where
  \<comment> \<open>\<open>re.search(r'[=\^\*/]|\\[a-z]+|\bC\b', ln)\<close>; the first argument is the character before\<close>
  "math_search prev [] = False"
| "math_search prev (c # cs) =
     (c \<in> {CHR ''='', CHR ''^'', CHR ''*'', CHR ''/''}
      \<or> (c = BACKSLASH \<and> (case cs of [] \<Rightarrow> False | d # _ \<Rightarrow> is_lower d))
      \<or> (c = CHR ''C''
          \<and> (case prev of None \<Rightarrow> True | Some p \<Rightarrow> \<not> is_word_char p)
          \<and> (case cs of [] \<Rightarrow> True | d # _ \<Rightarrow> \<not> is_word_char d))
      \<or> math_search (Some c) cs)"

definition answer_char :: "char \<Rightarrow> bool" where
  \<comment> \<open>the regex class \<open>[A-Za-z0-9\-\+\/*\^\(\)\s\._]\<close>\<close>
  "answer_char c =
     (is_upper c \<or> is_lower c \<or> is_digit c
      \<or> c \<in> {CHR ''-'', CHR ''+'', CHR ''/'', CHR ''*'', CHR ''^'', CHR ''('', CHR '')'', CHR ''.'', CHR ''_''}
      \<or> is_space c)"

definition looks_like_answer :: "string \<Rightarrow> bool" where
  \<comment> \<open>\<open>re.match(r'^[A-Za-z0-9\-\+\/*\^\(\)\s\._]+$', s) and len(s.split()) <= 8\<close>\<close>
  "looks_like_answer s = (s \<noteq> [] \<and> list_all answer_char s \<and> length (split_str s) \<le> 8)"

definition nonempty_lines :: "string \<Rightarrow> string list" where
  \<comment> \<open>\<open>[ln.strip() for ln in txt.splitlines() if ln.strip()]\<close>\<close>
  "nonempty_lines txt = filter (\<lambda>line. line \<noteq> []) (map strip (splitlines txt))"

fun parse_lines :: "string list \<Rightarrow> string list \<times> string \<Rightarrow> string list \<times> string" where
  \<comment> \<open>the \<open>for ln in lines\<close> loop on the state \<open>(steps, final_answer)\<close>\<close>
  "parse_lines [] st = st"
| "parse_lines (line # lines) (stps, fin) =
     (case match_step line of
        Some g \<Rightarrow> parse_lines lines (stps @ [strip g], fin)
      | None \<Rightarrow>
          (case match_final line of
             Some g \<Rightarrow> parse_lines lines (stps, strip g)
           | None \<Rightarrow>
               if math_search None line then parse_lines lines (stps @ [line], fin)
               else parse_lines lines (stps, fin)))"

definition last_line_guess :: "string list \<times> string \<Rightarrow> string list \<times> string" where
  \<comment> \<open>the post-pass: \<open>if not final_answer and steps: ...\<close>\<close>
  "last_line_guess st =
     (case st of (stps, fin) \<Rightarrow>
        if fin = [] \<and> stps \<noteq> [] \<and> looks_like_answer (last stps)
        then (butlast stps, last stps) else (stps, fin))"

definition parse_generation_result :: "string \<Rightarrow> string list \<times> string \<times> rat" where
  "parse_generation_result gen_text =
     (case last_line_guess (parse_lines (nonempty_lines gen_text) ([], [])) of
        (stps, fin) \<Rightarrow> (stps, fin, 6 / 10))"

section \<open>Result parser of routes/ask.py\<close>

definition routes_match_step :: "string \<Rightarrow> bool" where
  \<comment> \<open>\<open>re.match(r'^\d+\.', ln)\<close>\<close>
  "routes_match_step line =
     (takeWhile is_digit line \<noteq> [] \<and> starts_with (dropWhile is_digit line) ''.'')"

definition routes_match_final :: "string \<Rightarrow> bool" where
  \<comment> \<open>\<open>re.match(r'^(final answer|answer)', ln, re.I)\<close>\<close>
  "routes_match_final line = (starts_with (lower line) ''final answer'' \<or> starts_with (lower line) ''answer'')"

definition after_colon :: "string \<Rightarrow> string" where
  \<comment> \<open>\<open>ln.split(':',1)[-1]\<close>: what follows the first colon, the whole line when there is none\<close>
  "after_colon line = (if CHR '':'' \<in> set line then tl (dropWhile (\<lambda>c. c \<noteq> CHR '':'') line) else line)"

fun routes_parse_lines :: "string list \<Rightarrow> string list \<times> string \<Rightarrow> string list \<times> string" where
  "routes_parse_lines [] st = st"
| "routes_parse_lines (line # lines) (stps, fin) =
     (if routes_match_step line then routes_parse_lines lines (stps @ [line], fin)
      else if routes_match_final line then routes_parse_lines lines (stps, strip (after_colon line))
      else routes_parse_lines lines (stps, fin))"

definition routes_parse_generation_result :: "string \<Rightarrow> string list \<times> string \<times> rat" where
  "routes_parse_generation_result gen_text =
     (case routes_parse_lines (nonempty_lines gen_text) ([], []) of
        (stps, fin) \<Rightarrow> (stps, fin, 6 / 10))"

section \<open>Data model\<close>

datatype score_attr = NoScore | ScoreNone | Score rat
  \<comment> \<open>the \<open>score\<close> attribute of a hit: absent, \<open>None\<close>, or a float\<close>

datatype pyval = PyNone | PyStr string

datatype point_id = IntId int | StrId string

record hit =
  hit_id :: point_id
  hit_score :: score_attr
  payload :: "string \<rightharpoonup> pyval"

record config =
  KB_THRESHOLD :: rat
  KB_TOPK :: int

definition default_config :: config where
  \<comment> \<open>\<open>float(os.getenv("KB_THRESHOLD", 0.78))\<close>, \<open>int(os.getenv("KB_TOPK", 3))\<close>\<close>
  "default_config = \<lparr>KB_THRESHOLD = 78 / 100, KB_TOPK = 3\<rparr>"

record AskIn =
  question :: string
  explain_level :: string
  user_id :: "string option"

record AskOut =
  steps :: "string list"
  final_answer :: string
  sources :: "string list"
  confidence :: rat

datatype error = HTTPException nat string | UnboundLocalError string | KeyError string

datatype call = KbSearch string int | WebSearch string | Generate string "(nat \<times> rat) option"
  \<comment> \<open>an external call with its arguments; \<open>Generate p None\<close> leaves \<open>max_tokens\<close> and
      \<open>temperature\<close> to the callee's defaults\<close>

record env =
  kb_search :: "string \<Rightarrow> int \<Rightarrow> hit list"
  generate_with_gemini :: "string \<Rightarrow> (nat \<times> rat) option \<Rightarrow> string"
  web_search_fallback :: "string \<Rightarrow> string"

text \<open>
  The three collaborators are parameters. A request is modelled up to the point where each
  collaborator call returns; \<open>ask\<close> yields its outcome together with the external calls it
  made, in order.
\<close>

definition top_score :: "hit \<Rightarrow> rat" where
  \<comment> \<open>\<open>float(getattr(top, "score", 0.0) or 0.0)\<close>\<close>
  "top_score top_hit = (case hit_score top_hit of NoScore \<Rightarrow> 0 | ScoreNone \<Rightarrow> 0 | Score x \<Rightarrow> x)"

definition payload_get :: "(string \<rightharpoonup> pyval) \<Rightarrow> string \<Rightarrow> pyval" where
  \<comment> \<open>\<open>payload.get(k)\<close>\<close>
  "payload_get p k = (case p k of None \<Rightarrow> PyNone | Some v \<Rightarrow> v)"

definition payload_item :: "(string \<rightharpoonup> pyval) \<Rightarrow> string \<Rightarrow> error + pyval" where
  \<comment> \<open>\<open>payload[k]\<close>\<close>
  "payload_item p k = (case p k of None \<Rightarrow> Inl (KeyError k) | Some v \<Rightarrow> Inr v)"

definition or_empty :: "pyval \<Rightarrow> string" where
  \<comment> \<open>\<open>v or ""\<close>\<close>
  "or_empty v = (case v of PyNone \<Rightarrow> [] | PyStr s \<Rightarrow> s)"

definition format_val :: "pyval \<Rightarrow> string" where
  \<comment> \<open>\<open>f"{v}"\<close>\<close>
  "format_val v = (case v of PyNone \<Rightarrow> ''None'' | PyStr s \<Rightarrow> s)"

definition str_id :: "point_id \<Rightarrow> string" where
  \<comment> \<open>\<open>str(top.id)\<close>\<close>
  "str_id i = (case i of IntId n \<Rightarrow> str_int n | StrId s \<Rightarrow> s)"

definition EmptyInput :: error where
  "EmptyInput = HTTPException 400 ''Empty question provided.''"

definition OffDomain :: error where
  "OffDomain = HTTPException 400 ''This AI agent only supports mathematical questions.''"

definition UnsafeOutput_hit :: error where
  "UnsafeOutput_hit = HTTPException 400 ''Unsafe or off-topic content detected in model output.''"

definition UnsafeOutput_fallback :: error where
  "UnsafeOutput_fallback = HTTPException 400 ''Unsafe or irrelevant content detected in model output.''"

definition routes_Rejected :: error where
  "routes_Rejected = HTTPException 400 ''Only math questions are allowed.''"

definition routes_UnsafeOutput :: error where
  "routes_UnsafeOutput = HTTPException 400 ''Unsafe output detected.''"

section \<open>The endpoint of backend/main.py\<close>

definition indent :: "nat \<Rightarrow> string" where
  "indent n = replicate n (CHR '' '')"

definition hit_prompt :: "string \<Rightarrow> string \<Rightarrow> string \<Rightarrow> string" where
  "hit_prompt q level context =
     [LF] @ indent 12 @ ''You are a patient math professor.'' @ [LF]
     @ indent 12 @ ''The student'' @ [QUOTE] @ ''s question is: '' @ q @ [LF]
     @ indent 12 @ ''Use the retrieved example below to produce a clear, step-by-step solution.'' @ [LF]
     @ indent 12 @ ''Keep it '' @ level @ ''.'' @ [LF]
     @ indent 12 @ ''Use numbered steps and give the final answer clearly.'' @ [LF]
     @ indent 12 @ context @ [LF]
     @ indent 12"

definition fallback_prompt :: "string \<Rightarrow> string \<Rightarrow> string" where
  "fallback_prompt q context =
     (if context \<noteq> [] then
        [LF] @ indent 8 @ ''You are a helpful math professor.'' @ [LF]
        @ indent 8 @ ''Student asked: '' @ q @ [LF]
        @ indent 8 @ ''Here are some search snippets that might help:'' @ [LF]
        @ indent 8 @ context @ [LF]
        @ [LF]
        @ indent 8 @ ''Use this context to provide a clear, step-by-step solution.'' @ [LF]
        @ indent 8 @ ''Number each step and clearly show the '' @ [QUOTE] @ ''Final Answer:'' @ [QUOTE]
        @ '' at the end.'' @ [LF]
        @ indent 8
      else
        [LF] @ indent 8 @ ''You are a math professor.'' @ [LF]
        @ indent 8 @ ''Student asked: '' @ q @ [LF]
        @ indent 8 @ ''No relevant context found.'' @ [LF]
        @ indent 8 @ ''Please attempt to solve it step-by-step using standard math rules.'' @ [LF]
        @ indent 8)"

definition ask_kb_hit :: "env \<Rightarrow> AskIn \<Rightarrow> string \<Rightarrow> hit \<Rightarrow> rat \<Rightarrow> (error + AskOut) \<times> call list" where
  \<comment> \<open>the body of \<open>if score >= KB_THRESHOLD:\<close>\<close>
  "ask_kb_hit e req q top_hit score =
     (let kb_steps = or_empty (payload_get (payload top_hit) ''steps'');
          kb_answer = or_empty (payload_get (payload top_hit) ''final_answer'');
          context = ''Retrieved example:'' @ [LF]
                    @ ''Question: '' @ format_val (payload_get (payload top_hit) ''question'') @ [LF]
                    @ ''Steps: '' @ kb_steps @ [LF]
                    @ ''Answer: '' @ kb_answer @ [LF];
          prompt = hit_prompt q (explain_level req) context;
          gen = generate_with_gemini e prompt None
      in case parse_generation_result gen of
           (stps, fin, conf) \<Rightarrow>
             (if \<not> output_guardrail (str_list stps @ fin) then Inl UnsafeOutput_hit
              else Inr \<lparr>steps = (if stps = [] then (if kb_steps \<noteq> [] then [kb_steps] else []) else stps),
                        final_answer = (if fin = [] then kb_answer else fin),
                        sources = [str_id (hit_id top_hit)],
                        confidence = py_round (max conf score) 3\<rparr>,
              [Generate prompt None]))"

definition ask_fallback :: "env \<Rightarrow> string \<Rightarrow> (error + AskOut) \<times> call list" where
  \<comment> \<open>the code after the lookup; \<open>gen\<close> is assigned on the hit path only, so
      \<open>steps or [str(gen)]\<close> raises \<open>UnboundLocalError\<close> when \<open>steps\<close> is empty\<close>
  "ask_fallback e q =
     (let context = web_search_fallback e q;
          prompt = fallback_prompt q context;
          gen_text = generate_with_gemini e prompt (Some (512, 0))
      in case parse_generation_result gen_text of
           (stps, fin, conf) \<Rightarrow>
             (if \<not> output_guardrail (str_list stps @ fin) then Inl UnsafeOutput_fallback
              else if stps = [] then Inl (UnboundLocalError ''gen'')
              else Inr \<lparr>steps = stps, final_answer = fin, sources = [],
                        confidence = py_round conf 3\<rparr>,
              [WebSearch q, Generate prompt (Some (512, 0))]))"

definition ask :: "config \<Rightarrow> env \<Rightarrow> AskIn \<Rightarrow> (error + AskOut) \<times> call list" where
  "ask cfg e req =
     (let q = strip (question req) in
      if q = [] then (Inl EmptyInput, [])
      else if \<not> input_guardrail q then (Inl OffDomain, [])
      else
        (let hits = kb_search e q (KB_TOPK cfg);
             (res, calls) =
               (case hits of
                  [] \<Rightarrow> ask_fallback e q
                | top_hit # _ \<Rightarrow>
                    if KB_THRESHOLD cfg \<le> top_score top_hit then ask_kb_hit e req q top_hit (top_score top_hit)
                    else ask_fallback e q)
         in (res, KbSearch q (KB_TOPK cfg) # calls)))"

section \<open>The endpoint of routes/ask.py\<close>

definition routes_ask_kb_hit :: "env \<Rightarrow> string \<Rightarrow> hit \<Rightarrow> rat \<Rightarrow> (error + AskOut) \<times> call list" where
  "routes_ask_kb_hit e q top_hit score =
     (case payload_item (payload top_hit) ''question'' of
        Inl err \<Rightarrow> (Inl err, [])
      | Inr pq \<Rightarrow>
     (case payload_item (payload top_hit) ''steps'' of
        Inl err \<Rightarrow> (Inl err, [])
      | Inr ps \<Rightarrow>
     (case payload_item (payload top_hit) ''final_answer'' of
        Inl err \<Rightarrow> (Inl err, [])
      | Inr pa \<Rightarrow>
        (let context = ''Question: '' @ format_val pq @ [LF] @ ''Steps: '' @ format_val ps @ [LF]
                       @ ''Answer: '' @ format_val pa;
             prompt = ''Use this context to answer: '' @ q @ [LF] @ context @ [LF]
                      @ ''Give step-by-step answer and final answer clearly.'';
             gen_text = generate_with_gemini e prompt None
         in case routes_parse_generation_result gen_text of
              (stps, fin, conf) \<Rightarrow>
                (if \<not> output_guardrail (str_list stps @ fin) then Inl routes_UnsafeOutput
                 else Inr \<lparr>steps = stps, final_answer = fin, sources = [str_id (hit_id top_hit)],
                           confidence = py_round (max conf score) 3\<rparr>,
                 [Generate prompt None])))))"

definition routes_ask_fallback :: "env \<Rightarrow> string \<Rightarrow> (error + AskOut) \<times> call list" where
  "routes_ask_fallback e q =
     (let context = web_search_fallback e q;
          prompt = ''Student asked: '' @ q @ [LF] @ ''Context: '' @ context @ [LF]
                   @ ''Answer step-by-step with '' @ [QUOTE] @ ''Final Answer:'' @ [QUOTE] @ '' line.'';
          gen_text = generate_with_gemini e prompt None
      in case routes_parse_generation_result gen_text of
           (stps, fin, conf) \<Rightarrow>
             (Inr \<lparr>steps = stps, final_answer = fin, sources = [], confidence = py_round conf 3\<rparr>,
              [WebSearch q, Generate prompt None]))"

definition routes_ask :: "config \<Rightarrow> env \<Rightarrow> AskIn \<Rightarrow> (error + AskOut) \<times> call list" where
  "routes_ask cfg e req =
     (let q = strip (question req) in
      if q = [] \<or> \<not> input_guardrail q then (Inl routes_Rejected, [])
      else
        (let hits = kb_search e q (KB_TOPK cfg);
             (res, calls) =
               (case hits of
                  [] \<Rightarrow> routes_ask_fallback e q
                | top_hit # _ \<Rightarrow>
                    if KB_THRESHOLD cfg \<le> top_score top_hit then routes_ask_kb_hit e q top_hit (top_score top_hit)
                    else routes_ask_fallback e q)
         in (res, KbSearch q (KB_TOPK cfg) # calls)))"

section \<open>Observations on a request\<close>

definition web_search_called :: "call list \<Rightarrow> bool" where
  "web_search_called cs = list_ex (\<lambda>c. case c of WebSearch _ \<Rightarrow> True | _ \<Rightarrow> False) cs"

definition numbered_line :: "nat \<Rightarrow> string \<Rightarrow> string" where
  \<comment> \<open>the \<open>n\<close>-th numbered-step line, \<open>f"{n}. {step}"\<close>\<close>
  "numbered_line n step = str_nat n @ ''. '' @ step"

definition reconstruct :: "string list \<Rightarrow> string \<Rightarrow> string" where
  \<comment> \<open>the reconstruction the specification speaks of (the source has no such function):
      the steps as lines \<open>1. ...\<close>, \<open>2. ...\<close>, then the line \<open>Final Answer: ...\<close>\<close>
  "reconstruct stps fin =
     join [LF] (map (\<lambda>(i, s). numbered_line (Suc i) s) (enumerate 0 stps) @ [''Final Answer: '' @ fin])"

definition clean_line :: "string \<Rightarrow> bool" where
  \<comment> \<open>a string as the parser stores it: stripped, and free of line boundaries\<close>
  "clean_line s = (strip s = s \<and> (\<forall>c \<in> set s. \<not> is_linebreak c))"

section \<open>Example inputs\<close>

definition example_request :: AskIn where
  "example_request =
     \<lparr>question = ''Differentiate f(x) = x^3'', explain_level = ''detailed'', user_id = None\<rparr>"

definition example_hit :: "score_attr \<Rightarrow> hit" where
  "example_hit sc =
     \<lparr>hit_id = IntId 42, hit_score = sc,
      payload = [''question'' \<mapsto> PyStr ''Differentiate x^2'',
                 ''steps'' \<mapsto> PyStr ''Apply power rule'',
                 ''final_answer'' \<mapsto> PyStr ''2x'']\<rparr>"

definition example_env :: "hit list \<Rightarrow> string \<Rightarrow> env" where
  \<comment> \<open>collaborators that answer every call with the given hits and the given generator text;
      the web search finds nothing\<close>
  "example_env hits gen =
     \<lparr>kb_search = (\<lambda>q k. hits), generate_with_gemini = (\<lambda>p opt. gen),
      web_search_fallback = (\<lambda>q. [])\<rparr>"

definition example_generation :: string where
  "example_generation =
     ''1. Apply power rule'' @ [LF] @ ''2. d/dx(x^3)=3x^2'' @ [LF] @ ''Final Answer: 3x^2''"

section \<open>Substring tests\<close>

lemma starts_with_iff: "starts_with s w \<longleftrightarrow> (\<exists>v. s = w @ v)"
  by (induction s w rule: starts_with.induct) auto

lemma contains_iff: "contains s w \<longleftrightarrow> (\<exists>u v. s = u @ w @ v)"
proof (induction s)
  case Nil
  then show ?case by simp
next
  case (Cons c cs)
  show ?case
  proof
    assume "contains (c # cs) w"
    then consider "starts_with (c # cs) w" | "contains cs w" by auto
    then show "\<exists>u v. c # cs = u @ w @ v"
    proof cases
      case 1
      then obtain v where "c # cs = w @ v" by (auto simp: starts_with_iff)
      then have "c # cs = [] @ w @ v" by simp
      then show ?thesis by blast
    next
      case 2
      then obtain u v where "cs = u @ w @ v" using Cons.IH by blast
      then have "c # cs = (c # u) @ w @ v" by simp
      then show ?thesis by blast
    qed
  next
    assume "\<exists>u v. c # cs = u @ w @ v"
    then obtain u v where uv: "c # cs = u @ w @ v" by blast
    show "contains (c # cs) w"
    proof (cases u)
      case Nil
      then have "starts_with (c # cs) w" using uv by (simp add: starts_with_iff)
      then show ?thesis by simp
    next
      case (Cons a u')
      then have "cs = u' @ w @ v" using uv by simp
      then show ?thesis using Cons.IH by auto
    qed
  qed
qed

lemma lower_append: "lower (a @ b) = lower a @ lower b"
  by (simp add: lower_def)

lemma strip_infix: "\<exists>a b. s = a @ strip s @ b"
proof -
  let ?t = "dropWhile is_space s"
  have 1: "s = takeWhile is_space s @ ?t" by simp
  have "strip s @ rev (takeWhile is_space (rev ?t))
          = rev (takeWhile is_space (rev ?t) @ dropWhile is_space (rev ?t))"
    by (simp only: strip_def rev_append)
  also have "\<dots> = rev (rev ?t)" by (simp only: takeWhile_dropWhile_id)
  finally have 2: "?t = strip s @ rev (takeWhile is_space (rev ?t))" by simp
  have "s = takeWhile is_space s @ strip s @ rev (takeWhile is_space (rev ?t))"
    using 1 2 by metis
  then show ?thesis by blast
qed

lemma strip_blank: "(\<forall>c \<in> set s. is_space c) \<Longrightarrow> strip s = []"
proof -
  assume "\<forall>c \<in> set s. is_space c"
  then have "dropWhile is_space s = []" by (induction s) auto
  then have "strip s = rev (dropWhile is_space (rev []))" by (simp only: strip_def)
  then show ?thesis by simp
qed

section \<open>Whitespace and lines\<close>

lemma linebreak_is_space: "is_linebreak c \<Longrightarrow> is_space c"
  by (auto simp: is_linebreak_def is_space_def)

lemma digit_not_space: "is_digit c \<Longrightarrow> \<not> is_space c"
  by (auto simp: is_digit_def is_space_def)

lemma strip_fixed:
  assumes "s = [] \<or> (\<not> is_space (hd s) \<and> \<not> is_space (last s))"
  shows "strip s = s"
proof (cases "s = []")
  case True
  then show ?thesis by (simp add: strip_def)
next
  case False
  then have a: "dropWhile is_space s = s" using assms by (cases s) auto
  obtain x xs where r: "rev s = x # xs" using False by (cases "rev s") auto
  have "hd (rev s) = last s" using False by (simp add: hd_rev)
  then have "\<not> is_space x" using assms False r by simp
  then have b: "dropWhile is_space (rev s) = rev s" by (simp add: r)
  show ?thesis by (simp add: strip_def a b)
qed

lemma strip_shape: "strip s = [] \<or> (\<not> is_space (hd (strip s)) \<and> \<not> is_space (last (strip s)))"
proof (cases "strip s = []")
  case True
  then show ?thesis by simp
next
  case False
  let ?t = "dropWhile is_space s"
  let ?u = "dropWhile is_space (rev ?t)"
  have s: "strip s = rev ?u" by (simp add: strip_def)
  have u: "?u \<noteq> []" using False s by simp
  then have 1: "\<not> is_space (hd ?u)" by (rule hd_dropWhile)
  have t: "?t \<noteq> []" using u by (metis dropWhile.simps(1) rev.simps(1))
  then have 2: "\<not> is_space (hd ?t)" by (rule hd_dropWhile)
  have "rev ?t = takeWhile is_space (rev ?t) @ ?u" by simp
  then have "last (rev ?t) = last ?u" using u by (metis last_appendR)
  then have 3: "last ?u = hd ?t" using t by (simp add: last_rev)
  have "hd (strip s) = last ?u" using u s by (simp add: hd_rev)
  moreover have "last (strip s) = hd ?u" using u s by (simp add: last_rev)
  ultimately show ?thesis using 1 2 3 by simp
qed

lemma strip_idem: "strip (strip s) = strip s"
  using strip_shape [of s] by (rule strip_fixed)


lemma strip_append_spaces:
  assumes "\<forall>c \<in> set w. is_space c"
  shows "strip (s @ w) = strip s"
proof (cases "\<forall>c \<in> set s. is_space c")
  case True
  then have "\<forall>c \<in> set (s @ w). is_space c" using assms by auto
  then have "strip (s @ w) = []" by (rule strip_blank)
  moreover have "strip s = []" using True by (rule strip_blank)
  ultimately show ?thesis by simp
next
  case False
  then obtain x where "x \<in> set s" "\<not> is_space x" by blast
  then have "dropWhile is_space (s @ w) = dropWhile is_space s @ w"
    by (rule dropWhile_append1)
  moreover have "dropWhile is_space (rev w @ rev (dropWhile is_space s))
                   = dropWhile is_space (rev (dropWhile is_space s))"
    using assms by (intro dropWhile_append2) simp
  ultimately show ?thesis by (simp add: strip_def)
qed

lemma set_strip: "set (strip s) \<subseteq> set s"
proof -
  obtain a b where "s = a @ strip s @ b" using strip_infix by blast
  then have "set s = set a \<union> set (strip s) \<union> set b" by (metis set_append Un_assoc)
  then show ?thesis by blast
qed

lemma clean_strip: "\<forall>c \<in> set s. \<not> is_linebreak c \<Longrightarrow> clean_line (strip s)"
  using set_strip [of s] by (auto simp: clean_line_def strip_idem)

lemma clean_line_shape:
  "clean_line s \<Longrightarrow> s = [] \<or> (\<not> is_space (hd s) \<and> \<not> is_space (last s))"
  using strip_shape [of s] by (simp add: clean_line_def)

lemma splitlines_from_no_linebreak:
  "\<forall>c \<in> set cur. \<not> is_linebreak c \<Longrightarrow>
     \<forall>l \<in> set (splitlines_from cur s). \<forall>c \<in> set l. \<not> is_linebreak c"
proof (induction cur s rule: splitlines_from.induct)
  case (1 cur)
  then show ?case by simp
next
  case (2 cur c)
  then show ?case by simp
next
  case (3 cur c d cs)
  have e: "\<forall>c \<in> set ([]::string). \<not> is_linebreak c" by simp
  show ?case
  proof (cases "c = CR \<and> d = LF")
    case True
    have "\<forall>l \<in> set (splitlines_from [] cs). \<forall>c \<in> set l. \<not> is_linebreak c"
      by (rule "3.IH"(1) [OF True e])
    then show ?thesis using True "3.prems" by simp
  next
    case False
    show ?thesis
    proof (cases "is_linebreak c")
      case True
      have "\<forall>l \<in> set (splitlines_from [] (d # cs)). \<forall>c \<in> set l. \<not> is_linebreak c"
        by (rule "3.IH"(2) [OF False True e])
      then show ?thesis using False True "3.prems" by auto
    next
      case nb: False
      have "\<forall>x \<in> set (cur @ [c]). \<not> is_linebreak x" using nb "3.prems" by simp
      then have "\<forall>l \<in> set (splitlines_from (cur @ [c]) (d # cs)). \<forall>c \<in> set l. \<not> is_linebreak c"
        by (rule "3.IH"(3) [OF False nb])
      then show ?thesis using False nb by auto
    qed
  qed
qed

lemma nonempty_lines_clean: "l \<in> set (nonempty_lines txt) \<Longrightarrow> l \<noteq> [] \<and> clean_line l"
  using splitlines_from_no_linebreak [of "[]" "txt"]
  by (auto simp: nonempty_lines_def splitlines_def intro!: clean_strip)

lemma splitlines_from_append:
  "\<forall>c \<in> set l. \<not> is_linebreak c \<Longrightarrow> splitlines_from cur (l @ s) = splitlines_from (cur @ l) s"
proof (induction l arbitrary: cur)
  case Nil
  then show ?case by simp
next
  case (Cons c l)
  have nb: "\<not> is_linebreak c" and ncr: "c \<noteq> CR" using Cons.prems by (auto simp: is_linebreak_def CR_def)
  show ?case
  proof (cases "l @ s")
    case Nil
    then show ?thesis using nb by simp
  next
    case (Cons d cs)
    have "splitlines_from cur ((c # l) @ s) = splitlines_from (cur @ [c]) (l @ s)"
      using Cons nb ncr by simp
    also have "\<dots> = splitlines_from ((cur @ [c]) @ l) s" using Cons.prems
      by (intro Cons.IH) simp
    finally show ?thesis by simp
  qed
qed

lemma splitlines_from_LF: "splitlines_from cur (LF # s) = cur # splitlines_from [] s"
  by (cases s) (auto simp: is_linebreak_def LF_def CR_def)

lemma splitlines_from_join:
  assumes "\<forall>l \<in> set (l0 # ls). l \<noteq> [] \<and> (\<forall>c \<in> set l. \<not> is_linebreak c)"
  shows "splitlines_from cur (l0 @ concat (map (\<lambda>z. [LF] @ z) ls)) = (cur @ l0) # ls"
  using assms
proof (induction ls arbitrary: cur l0)
  case Nil
  then show ?case using splitlines_from_append [of l0 cur "[]"] by simp
next
  case (Cons m ms)
  have "splitlines_from cur (l0 @ concat (map (\<lambda>z. [LF] @ z) (m # ms)))
          = splitlines_from (cur @ l0) (LF # m @ concat (map (\<lambda>z. [LF] @ z) ms))"
    using Cons.prems by (simp add: splitlines_from_append)
  also have "\<dots> = (cur @ l0) # splitlines_from [] (m @ concat (map (\<lambda>z. [LF] @ z) ms))"
    by (rule splitlines_from_LF)
  also have "splitlines_from [] (m @ concat (map (\<lambda>z. [LF] @ z) ms)) = ([] @ m) # ms"
    using Cons.prems by (intro Cons.IH) simp
  finally show ?case by simp
qed

lemma splitlines_join:
  assumes "ls \<noteq> []" "\<forall>l \<in> set ls. l \<noteq> [] \<and> (\<forall>c \<in> set l. \<not> is_linebreak c)"
  shows "splitlines (join [LF] ls) = ls"
proof -
  obtain l0 ls' where ls: "ls = l0 # ls'" using assms(1) by (cases ls) auto
  have "splitlines (join [LF] ls) = splitlines_from [] (l0 @ concat (map (\<lambda>z. [LF] @ z) ls'))"
    by (simp only: ls splitlines_def join_def list.case)
  also have "\<dots> = ([] @ l0) # ls'" using assms(2) unfolding ls by (rule splitlines_from_join)
  finally show ?thesis by (simp add: ls)
qed

section \<open>Input validation\<close>

lemma input_guardrail_iff:
  "input_guardrail text \<longleftrightarrow> (\<exists>w \<in> set allowed_keywords. \<exists>u v. lower text = u @ w @ v)"
  by (simp add: input_guardrail_def list_ex_iff contains_iff)

lemma input_guardrail_strip: "input_guardrail (strip s) \<Longrightarrow> input_guardrail s"
proof -
  assume "input_guardrail (strip s)"
  then obtain w u v where w: "w \<in> set allowed_keywords" and uv: "lower (strip s) = u @ w @ v"
    unfolding input_guardrail_iff by blast
  obtain a b where "s = a @ strip s @ b" using strip_infix by blast
  then have "lower s = lower a @ lower (strip s) @ lower b"
    by (metis lower_append)
  then have "lower s = (lower a @ u) @ w @ (v @ lower b)" using uv by simp
  then show "input_guardrail s" unfolding input_guardrail_iff using w by blast
qed

text \<open>
  C5. \<open>input_guardrail\<close> accepts a text exactly when its lower-cased form contains a keyword
  of the fixed allow-list as a substring. Hence a question that is not blank (the blank
  ones are rejected as empty first) and contains no allow-listed keyword makes \<open>ask\<close> fail
  with the off-domain error, with no retrieval, web-search or generation call made.
\<close>

theorem input_guardrail_allow_list:
  "(input_guardrail text \<longleftrightarrow> (\<exists>w \<in> set allowed_keywords. \<exists>u v. lower text = u @ w @ v))
   \<and> (strip (question req) \<noteq> [] \<and> \<not> input_guardrail (question req)
        \<longrightarrow> ask cfg e req = (Inl OffDomain, []))"
  using input_guardrail_strip [of "question req"]
  by (auto simp: input_guardrail_iff ask_def Let_def)

theorem input_guardrail_allow_list_witness:
  "input_guardrail ''Please SOLVE it''
   \<and> ask default_config (example_env [] example_generation)
        \<lparr>question = ''Tell me a joke'', explain_level = ''simple'', user_id = None\<rparr>
      = (Inl OffDomain, [])"
proof -
  let ?r = "\<lparr>question = ''Tell me a joke'', explain_level = ''simple'', user_id = None\<rparr>"
  have h: "strip (question ?r) \<noteq> [] \<and> \<not> input_guardrail (question ?r)" by code_simp
  have g: "input_guardrail ''Please SOLVE it''" by code_simp
  show ?thesis
    using input_guardrail_allow_list [of "''Please SOLVE it''" ?r default_config
        "example_env [] example_generation"] h g
    by blast
qed

text \<open>
  C9. An empty or whitespace-only question is rejected before any external call, with an
  error of its own, distinct from the off-domain error. In routes/ask.py the two checks
  share one guard and one error: a blank question and an off-domain question get the same
  rejection.
\<close>

theorem routes_ask_blank_same_error_as_off_domain:
  "routes_ask default_config (example_env [] example_generation)
      \<lparr>question = ''   '', explain_level = ''simple'', user_id = None\<rparr>
   = routes_ask default_config (example_env [] example_generation)
      \<lparr>question = ''Tell me a joke'', explain_level = ''simple'', user_id = None\<rparr>"
  by code_simp

text \<open>
  C9, as the code has it. A blank question is rejected before any external call by both
  endpoints. backend/main.py answers it with the empty-input error, which differs from its
  off-domain error; routes/ask.py answers blank and off-domain questions with the same
  error.
\<close>

theorem blank_question_rejected_before_calls:
  "((\<forall>c \<in> set (question req). is_space c) \<longrightarrow>
       ask cfg e req = (Inl EmptyInput, []) \<and> routes_ask cfg e req = (Inl routes_Rejected, []))
   \<and> EmptyInput \<noteq> OffDomain
   \<and> (strip (question req) \<noteq> [] \<and> \<not> input_guardrail (strip (question req)) \<longrightarrow>
       ask cfg e req = (Inl OffDomain, []) \<and> routes_ask cfg e req = (Inl routes_Rejected, []))"
  by (simp add: strip_blank ask_def routes_ask_def EmptyInput_def OffDomain_def)

theorem blank_question_rejected_before_calls_witness:
  "ask default_config (example_env [] example_generation)
      \<lparr>question = ''   '', explain_level = ''simple'', user_id = None\<rparr> = (Inl EmptyInput, [])
   \<and> ask default_config (example_env [] example_generation)
      \<lparr>question = ''Tell me a joke'', explain_level = ''simple'', user_id = None\<rparr> = (Inl OffDomain, [])"
proof -
  let ?b = "\<lparr>question = ''   '', explain_level = ''simple'', user_id = None\<rparr>"
  let ?j = "\<lparr>question = ''Tell me a joke'', explain_level = ''simple'', user_id = None\<rparr>"
  have h1: "\<forall>c \<in> set (question ?b). is_space c" by (simp add: is_space_def)
  have h2: "strip (question ?j) \<noteq> [] \<and> \<not> input_guardrail (strip (question ?j))" by code_simp
  show ?thesis
    using blank_question_rejected_before_calls [of ?b default_config "example_env [] example_generation"]
      blank_question_rejected_before_calls [of ?j default_config "example_env [] example_generation"]
      h1 h2
    by blast
qed

section \<open>Retrieval hit or fallback\<close>

lemma web_search_called_ask_fallback [simp]: "web_search_called (snd (ask_fallback e q))"
  by (simp add: ask_fallback_def web_search_called_def Let_def split: prod.splits)

lemma web_search_called_ask_kb_hit [simp]: "\<not> web_search_called (snd (ask_kb_hit e req q h sc))"
  by (simp add: ask_kb_hit_def web_search_called_def Let_def split: prod.splits)

lemma web_search_called_routes_ask_fallback [simp]:
  "web_search_called (snd (routes_ask_fallback e q))"
  by (simp add: routes_ask_fallback_def web_search_called_def Let_def split: prod.splits)

lemma web_search_called_routes_ask_kb_hit [simp]:
  "\<not> web_search_called (snd (routes_ask_kb_hit e q h sc))"
  by (simp add: routes_ask_kb_hit_def web_search_called_def Let_def split: prod.splits sum.splits)

lemma web_search_called_KbSearch [simp]:
  "web_search_called (KbSearch q k # cs) = web_search_called cs"
  by (simp add: web_search_called_def)

lemma ask_valid:
  assumes "strip (question req) \<noteq> []" "input_guardrail (strip (question req))"
  shows "ask cfg e req =
     (let q = strip (question req); r =
               (case kb_search e q (KB_TOPK cfg) of
                  [] \<Rightarrow> ask_fallback e q
                | h # _ \<Rightarrow>
                    if KB_THRESHOLD cfg \<le> top_score h then ask_kb_hit e req q h (top_score h)
                    else ask_fallback e q)
      in (fst r, KbSearch q (KB_TOPK cfg) # snd r))"
  using assms by (simp add: ask_def Let_def split: prod.splits)

lemma routes_ask_valid:
  assumes "strip (question req) \<noteq> []" "input_guardrail (strip (question req))"
  shows "routes_ask cfg e req =
     (let q = strip (question req); r =
               (case kb_search e q (KB_TOPK cfg) of
                  [] \<Rightarrow> routes_ask_fallback e q
                | h # _ \<Rightarrow>
                    if KB_THRESHOLD cfg \<le> top_score h then routes_ask_kb_hit e q h (top_score h)
                    else routes_ask_fallback e q)
      in (fst r, KbSearch q (KB_TOPK cfg) # snd r))"
  using assms by (simp add: routes_ask_def Let_def split: prod.splits)

lemma top_score_Score: "hit_score h = Score x \<Longrightarrow> top_score h = x"
  by (simp add: top_score_def)

text \<open>
  C2. For a request that passes validation, the retrieval-hit path is taken (the hit
  branch runs and no web search is made) exactly when the retrieval client returns at
  least one hit and the score \<open>x\<close> of the first hit is at least the configured threshold,
  whose default is 0.78; with no hit, or with \<open>x\<close> below the threshold, the fallback branch
  runs, which calls the web search. The comparison is inclusive. Both endpoints agree.
\<close>

theorem retrieval_hit_iff_score_reaches_threshold:
  assumes "strip (question req) \<noteq> []" "input_guardrail (strip (question req))"
  shows "(kb_search e (strip (question req)) (KB_TOPK cfg) = [] \<longrightarrow>
            web_search_called (snd (ask cfg e req))
            \<and> web_search_called (snd (routes_ask cfg e req)))
       \<and> (\<forall>h hs x. kb_search e (strip (question req)) (KB_TOPK cfg) = h # hs
                    \<and> hit_score h = Score x \<longrightarrow>
             ((\<not> web_search_called (snd (ask cfg e req))) = (KB_THRESHOLD cfg \<le> x))
             \<and> ((\<not> web_search_called (snd (routes_ask cfg e req))) = (KB_THRESHOLD cfg \<le> x))
             \<and> (KB_THRESHOLD cfg \<le> x \<longrightarrow>
                  ask cfg e req
                    = (fst (ask_kb_hit e req (strip (question req)) h x),
                       KbSearch (strip (question req)) (KB_TOPK cfg)
                         # snd (ask_kb_hit e req (strip (question req)) h x))
                  \<and> routes_ask cfg e req
                    = (fst (routes_ask_kb_hit e (strip (question req)) h x),
                       KbSearch (strip (question req)) (KB_TOPK cfg)
                         # snd (routes_ask_kb_hit e (strip (question req)) h x)))
             \<and> (x < KB_THRESHOLD cfg \<longrightarrow>
                  ask cfg e req
                    = (fst (ask_fallback e (strip (question req))),
                       KbSearch (strip (question req)) (KB_TOPK cfg)
                         # snd (ask_fallback e (strip (question req))))
                  \<and> routes_ask cfg e req
                    = (fst (routes_ask_fallback e (strip (question req))),
                       KbSearch (strip (question req)) (KB_TOPK cfg)
                         # snd (routes_ask_fallback e (strip (question req))))))
       \<and> KB_THRESHOLD default_config = 78 / 100"
  by (auto simp: ask_valid [OF assms] routes_ask_valid [OF assms] Let_def default_config_def
           top_score_Score)

theorem retrieval_hit_at_threshold_witness:
  "\<not> web_search_called (snd (ask default_config
        (example_env [example_hit (Score (78 / 100))] example_generation) example_request))
   \<and> \<not> web_search_called (snd (routes_ask default_config
        (example_env [example_hit (Score (78 / 100))] example_generation) example_request))
   \<and> web_search_called (snd (ask default_config
        (example_env [example_hit (Score (77 / 100))] example_generation) example_request))
   \<and> web_search_called (snd (routes_ask default_config
        (example_env [example_hit (Score (77 / 100))] example_generation) example_request))
   \<and> web_search_called (snd (ask default_config
        (example_env [] example_generation) example_request))"
proof -
  have h1: "strip (question example_request) \<noteq> []" by code_simp
  have h2: "input_guardrail (strip (question example_request))" by code_simp
  have k: "kb_search (example_env hits example_generation) (strip (question example_request))
             (KB_TOPK default_config) = hits" for hits
    by (simp add: example_env_def)
  have s: "hit_score (example_hit sc) = sc" for sc by (simp add: example_hit_def)
  have c: "kb_search (example_env [example_hit (Score v)] example_generation)
              (strip (question example_request)) (KB_TOPK default_config)
             = example_hit (Score v) # []
           \<and> hit_score (example_hit (Score v)) = Score v" for v
    using k s by simp
  have t: "KB_THRESHOLD default_config \<le> 78 / 100" "\<not> KB_THRESHOLD default_config \<le> 77 / 100"
    by (simp_all add: default_config_def)
  note at = retrieval_hit_iff_score_reaches_threshold [OF h1 h2, of "example_env [example_hit (Score (78 / 100))] example_generation"
      default_config, THEN conjunct2, THEN conjunct1, rule_format, OF c]
  note below = retrieval_hit_iff_score_reaches_threshold [OF h1 h2, of "example_env [example_hit (Score (77 / 100))] example_generation"
      default_config, THEN conjunct2, THEN conjunct1, rule_format, OF c]
  note none = retrieval_hit_iff_score_reaches_threshold [OF h1 h2, of "example_env [] example_generation" default_config,
      THEN conjunct1, rule_format, OF k]
  show ?thesis using at below none t by blast
qed

text \<open>
  A first hit with no score attribute, or with the score \<open>None\<close>, is read as 0.0 without
  raising, and for any positive threshold the request goes on exactly as the fallback path
  does (web search, then generation). Both endpoints agree; the fallback of routes/ask.py
  always returns a response.
\<close>

lemma missing_score_takes_fallback:
  assumes "strip (question req) \<noteq> []" "input_guardrail (strip (question req))"
    and "kb_search e (strip (question req)) (KB_TOPK cfg) = h # hs"
    and "hit_score h = NoScore \<or> hit_score h = ScoreNone"
    and "0 < KB_THRESHOLD cfg"
  shows "top_score h = 0
       \<and> ask cfg e req = (fst (ask_fallback e (strip (question req))),
            KbSearch (strip (question req)) (KB_TOPK cfg) # snd (ask_fallback e (strip (question req))))
       \<and> routes_ask cfg e req = (fst (routes_ask_fallback e (strip (question req))),
            KbSearch (strip (question req)) (KB_TOPK cfg)
              # snd (routes_ask_fallback e (strip (question req))))
       \<and> web_search_called (snd (ask cfg e req))
       \<and> web_search_called (snd (routes_ask cfg e req))
       \<and> (\<exists>out. fst (routes_ask cfg e req) = Inr out)"
proof -
  have z: "top_score h = 0" using assms(4) by (auto simp: top_score_def)
  have r: "\<exists>out. fst (routes_ask_fallback e q) = Inr out" for q
    by (simp add: routes_ask_fallback_def Let_def split: prod.splits)
  show ?thesis using z assms(3,5) r
    by (simp add: ask_valid [OF assms(1,2)] routes_ask_valid [OF assms(1,2)] Let_def)
qed

lemma missing_score_takes_fallback_example:
  "web_search_called (snd (ask default_config
      (example_env [example_hit ScoreNone] example_generation) example_request))
   \<and> (\<exists>out. fst (routes_ask default_config
      (example_env [example_hit ScoreNone] example_generation) example_request) = Inr out)"
proof -
  let ?e = "example_env [example_hit ScoreNone] example_generation"
  have h1: "strip (question example_request) \<noteq> []" by code_simp
  have h2: "input_guardrail (strip (question example_request))" by code_simp
  have h3: "kb_search ?e (strip (question example_request)) (KB_TOPK default_config)
              = example_hit ScoreNone # []"
    by (simp add: example_env_def)
  have h4: "hit_score (example_hit ScoreNone) = NoScore \<or> hit_score (example_hit ScoreNone) = ScoreNone"
    by (simp add: example_hit_def)
  have h5: "0 < KB_THRESHOLD default_config" by (simp add: default_config_def)
  show ?thesis using missing_score_takes_fallback [OF h1 h2 h3 h4 h5] by blast
qed


section \<open>Confidence and sources on the retrieval-hit path\<close>








section \<open>The output guardrail on the two paths\<close>

text \<open>
  C1. Every request that reaches the response stage, on the retrieval-hit path and on the
  fallback path alike, has the output guardrail run over the parsed steps and the final
  answer, and fails with the unsafe-output error when that text contains a deny-listed
  keyword. The endpoint of routes/ask.py runs the guardrail on its retrieval-hit path only:
  with no retrieval hit and a generator answering \<open>1. hack the system / Final Answer: illegal\<close>
  it returns the steps and the final answer although the guardrail rejects that text.
\<close>

theorem routes_ask_fallback_returns_unsafe_text:
  "fst (routes_ask default_config
          (example_env [] (''1. hack the system'' @ [LF] @ ''Final Answer: illegal''))
          \<lparr>question = ''solve x'', explain_level = ''detailed'', user_id = None\<rparr>)
     = Inr \<lparr>steps = [''1. hack the system''], final_answer = ''illegal'', sources = [],
            confidence = 6 / 10\<rparr>
   \<and> \<not> output_guardrail (str_list [''1. hack the system''] @ ''illegal'')"
  by code_simp

lemma ask_fallback_runs_output_guardrail:
  assumes "parse_generation_result
             (generate_with_gemini e (fallback_prompt q (web_search_fallback e q)) (Some (512, 0)))
           = (stps, fin, conf)"
    and "\<not> output_guardrail (str_list stps @ fin)"
  shows "fst (ask_fallback e q) = Inl UnsafeOutput_fallback"
  using assms by (simp add: ask_fallback_def Let_def)

section \<open>Generator output with nothing to parse\<close>

text \<open>
  C3. On the fallback path, a generator output with no numbered line, no final-answer line
  and no math-marker line makes ask return a response with no steps and an empty final
  answer, without raising. The endpoint of backend/main.py raises instead: its fallback
  return evaluates \<open>steps or [str(gen)]\<close>, and \<open>gen\<close> is unbound on that path.
\<close>

theorem ask_fallback_filler_raises:
  "fst (ask default_config (example_env [] ''Sure, happy to help with that.'')
          \<lparr>question = ''solve x'', explain_level = ''detailed'', user_id = None\<rparr>)
     = Inl (UnboundLocalError ''gen'')"
  by code_simp

lemma routes_ask_fallback_filler_returns_empty:
  "fst (routes_ask default_config (example_env [] ''Sure, happy to help with that.'')
          \<lparr>question = ''solve x'', explain_level = ''detailed'', user_id = None\<rparr>)
     = Inr \<lparr>steps = [], final_answer = [], sources = [], confidence = 6 / 10\<rparr>"
  by code_simp

section \<open>What the parser stores\<close>

declare str_nat.simps [simp del]

lemma is_digit_digit_char: "d < 10 \<Longrightarrow> is_digit (digit_char d)"
  by (simp add: is_digit_def digit_char_def)

lemma str_nat_digits: "str_nat n \<noteq> [] \<and> (\<forall>c \<in> set (str_nat n). is_digit c)"
proof (induction n rule: str_nat.induct)
  case (1 n)
  show ?case
  proof (cases "n < 10")
    case True
    then show ?thesis by (subst (1 2) str_nat.simps) (simp add: is_digit_digit_char)
  next
    case False
    then show ?thesis using 1 by (subst (1 2) str_nat.simps) (simp add: is_digit_digit_char)
  qed
qed

lemma digit_not_linebreak: "is_digit c \<Longrightarrow> \<not> is_linebreak c"
  using digit_not_space linebreak_is_space by blast

lemma LF_linebreak: "is_linebreak LF"
  by (simp add: is_linebreak_def LF_def)

lemma dot_star_end_plain: "LF \<notin> set r \<Longrightarrow> dot_star_end r = Some r"
  by (simp add: dot_star_end_def)

lemma dot_star_end_subset: "dot_star_end r = Some g \<Longrightarrow> set g \<subseteq> set r"
  by (auto simp: dot_star_end_def split: if_splits dest: in_set_butlastD)

lemma match_step_subset: "match_step l = Some g \<Longrightarrow> set g \<subseteq> set l"
proof -
  assume a: "match_step l = Some g"
  then obtain c r where cr: "dropWhile is_space (dropWhile is_digit l) = c # r"
    and g: "dot_star_end (dropWhile is_space r) = Some g"
    by (auto simp: match_step_def split: if_splits list.splits)
  have "set (c # r) \<subseteq> set l" using cr by (metis set_dropWhileD subsetI)
  moreover have "set g \<subseteq> set r" using dot_star_end_subset [OF g] set_dropWhileD by fastforce
  ultimately show ?thesis by auto
qed

lemma final_tail_subset: "final_tail r = Some g \<Longrightarrow> set g \<subseteq> set r"
proof -
  assume a: "final_tail r = Some g"
  then obtain c r' where cr: "dropWhile is_space r = c # r'"
    and g: "dot_star_end (dropWhile is_space r') = Some g"
    by (auto simp: final_tail_def split: if_splits list.splits)
  have "set (c # r') \<subseteq> set r" using cr by (metis set_dropWhileD subsetI)
  moreover have "set g \<subseteq> set r'" using dot_star_end_subset [OF g] set_dropWhileD by fastforce
  ultimately show ?thesis by auto
qed

lemma match_final_subset: "match_final l = Some g \<Longrightarrow> set g \<subseteq> set l"
  using final_tail_subset set_drop_subset
  by (fastforce simp: match_final_def split: if_splits)

lemma parse_lines_clean:
  assumes "\<forall>l \<in> set ls. clean_line l" "\<forall>s \<in> set stps. clean_line s" "clean_line fin"
    and "parse_lines ls (stps, fin) = (stps', fin')"
  shows "(\<forall>s \<in> set stps'. clean_line s) \<and> clean_line fin'"
  using assms
proof (induction ls arbitrary: stps fin)
  case Nil
  then show ?case by simp
next
  case (Cons l ls)
  have nb: "\<forall>c \<in> set l. \<not> is_linebreak c" and cl: "clean_line l"
    using Cons.prems(1) by (auto simp: clean_line_def)
  have rest: "\<forall>l \<in> set ls. clean_line l" using Cons.prems(1) by simp
  show ?case
  proof (cases "match_step l")
    case (Some g)
    then have "clean_line (strip g)" using match_step_subset [OF Some] nb
      by (intro clean_strip) auto
    then have "\<forall>s \<in> set (stps @ [strip g]). clean_line s" using Cons.prems(2) by simp
    moreover have "parse_lines ls (stps @ [strip g], fin) = (stps', fin')"
      using Cons.prems(4) Some by simp
    ultimately show ?thesis using Cons.IH rest Cons.prems(3) by blast
  next
    case None
    show ?thesis
    proof (cases "match_final l")
      case (Some g)
      then have "clean_line (strip g)" using match_final_subset [OF Some] nb
        by (intro clean_strip) auto
      moreover have "parse_lines ls (stps, strip g) = (stps', fin')"
        using Cons.prems(4) None Some by simp
      ultimately show ?thesis using Cons.IH rest Cons.prems(2) by blast
    next
      case nf: None
      show ?thesis
      proof (cases "math_search None l")
        case True
        then have "parse_lines ls (stps @ [l], fin) = (stps', fin')"
          using Cons.prems(4) None nf by simp
        moreover have "\<forall>s \<in> set (stps @ [l]). clean_line s" using Cons.prems(2) cl by simp
        ultimately show ?thesis using Cons.IH rest Cons.prems(3) by blast
      next
        case False
        then have "parse_lines ls (stps, fin) = (stps', fin')"
          using Cons.prems(4) None nf by simp
        then show ?thesis using Cons.IH rest Cons.prems(2,3) by blast
      qed
    qed
  qed
qed

lemma clean_line_Nil: "clean_line []"
  by (simp add: clean_line_def strip_def)

lemma last_line_guess_clean:
  assumes "\<forall>s \<in> set stps. clean_line s" "clean_line fin"
    and "last_line_guess (stps, fin) = (stps', fin')"
  shows "(\<forall>s \<in> set stps'. clean_line s) \<and> clean_line fin'"
  using assms
  by (auto simp: last_line_guess_def split: if_splits dest: in_set_butlastD)

lemma last_line_guess_idem: "last_line_guess (last_line_guess st) = last_line_guess st"
  by (cases st) (auto simp: last_line_guess_def looks_like_answer_def)

lemma parse_result_clean:
  assumes "parse_generation_result gen_text = (stps, fin, conf)"
  shows "(\<forall>s \<in> set stps. clean_line s) \<and> clean_line fin
         \<and> last_line_guess (stps, fin) = (stps, fin) \<and> conf = 6 / 10"
proof -
  obtain s0 f0 where p: "parse_lines (nonempty_lines gen_text) ([], []) = (s0, f0)"
    by (cases "parse_lines (nonempty_lines gen_text) ([], [])") auto
  have g: "last_line_guess (s0, f0) = (stps, fin)" and c: "conf = 6 / 10"
    using assms p by (auto simp: parse_generation_result_def split: prod.splits)
  have "\<forall>l \<in> set (nonempty_lines gen_text). clean_line l" using nonempty_lines_clean by blast
  then have "(\<forall>s \<in> set s0. clean_line s) \<and> clean_line f0"
    using parse_lines_clean [OF _ _ _ p] clean_line_Nil by simp
  then have "(\<forall>s \<in> set stps. clean_line s) \<and> clean_line fin"
    using last_line_guess_clean [OF _ _ g] by blast
  moreover have "last_line_guess (stps, fin) = (stps, fin)"
    using last_line_guess_idem [of "(s0, f0)"] g by simp
  ultimately show ?thesis using c by simp
qed

section \<open>Parsing a reconstructed text\<close>

lemma clean_line_no_LF: "clean_line s \<Longrightarrow> LF \<notin> set s"
  using LF_linebreak by (auto simp: clean_line_def)

lemma takeWhile_digits: "\<forall>c \<in> set ds. is_digit c \<Longrightarrow> \<not> is_digit x \<Longrightarrow>
    takeWhile is_digit (ds @ x # r) = ds \<and> dropWhile is_digit (ds @ x # r) = x # r"
  by (simp add: takeWhile_append2 dropWhile_append2)

lemma match_step_numbered:
  assumes "clean_line s"
  shows "strip (numbered_line n s) \<noteq> []
       \<and> (\<exists>g. match_step (strip (numbered_line n s)) = Some g \<and> strip g = s)"
proof -
  let ?ds = "str_nat n"
  have ds: "?ds \<noteq> []" "\<forall>c \<in> set ?ds. is_digit c" using str_nat_digits by auto
  have hd: "\<not> is_space (hd ?ds)" using ds digit_not_space by (cases ?ds) auto
  have dot: "\<not> is_digit (CHR ''.'')" "\<not> is_space (CHR ''.'')" "is_space (CHR '' '')"
    by (simp_all add: is_digit_def is_space_def)
  show ?thesis
  proof (cases "s = []")
    case True
    have "strip (numbered_line n s) = strip (?ds @ ''.'')"
      using strip_append_spaces [of "'' ''" "?ds @ ''.''"] dot True
      by (simp add: numbered_line_def)
    also have "\<dots> = ?ds @ ''.''" using hd ds dot by (intro strip_fixed) simp
    finally have l: "strip (numbered_line n s) = ?ds @ ''.''" .
    have "match_step (?ds @ ''.'') = Some []"
      using takeWhile_digits [OF ds(2) dot(1), of "[]"] ds(1) dot
      by (simp add: match_step_def dot_star_end_def)
    then show ?thesis using l True ds(1) by (simp add: strip_def)
  next
    case False
    have sh: "\<not> is_space (hd s)" "\<not> is_space (last s)"
      using clean_line_shape [OF assms] False by auto
    have "strip (numbered_line n s) = ?ds @ ''. '' @ s"
      unfolding numbered_line_def using hd ds sh False by (intro strip_fixed) simp
    then have l: "strip (numbered_line n s) = ?ds @ CHR ''.'' # ('' '' @ s)" by simp
    have dw: "dropWhile is_space ('' '' @ s) = s" using sh False dot by (cases s) auto
    have "match_step (?ds @ CHR ''.'' # ('' '' @ s)) = Some s"
      using takeWhile_digits [OF ds(2) dot(1), of "'' '' @ s"] ds(1) dot dw
        dot_star_end_plain [OF clean_line_no_LF [OF assms]]
      by (simp add: match_step_def)
    moreover have "strip s = s" using assms by (simp add: clean_line_def)
    ultimately show ?thesis using l ds(1) by simp
  qed
qed

lemma lower_final_answer: "lower ''Final Answer:'' = ''final answer:''"
  by code_simp

lemma match_final_line:
  assumes "clean_line fin"
  shows "strip (''Final Answer: '' @ fin) \<noteq> []
       \<and> match_step (strip (''Final Answer: '' @ fin)) = None
       \<and> (\<exists>g. match_final (strip (''Final Answer: '' @ fin)) = Some g \<and> strip g = fin)"
proof -
  have sp: "is_space (CHR '' '')" "\<not> is_space (CHR '':'')" "\<not> is_space (CHR ''F'')"
    "\<not> is_digit (CHR ''F'')"
    by (simp_all add: is_space_def is_digit_def)
  have "\<exists>r. strip (''Final Answer: '' @ fin) = ''Final Answer:'' @ r
            \<and> dot_star_end (dropWhile is_space r) = Some fin"
  proof (cases "fin = []")
    case True
    have "strip (''Final Answer: '' @ fin) = strip ''Final Answer:''"
      using strip_append_spaces [of "'' ''" "''Final Answer:''"] sp True by simp
    also have "\<dots> = ''Final Answer:''" using sp by (intro strip_fixed) simp
    finally show ?thesis using True by (simp add: dot_star_end_def)
  next
    case False
    have sh: "\<not> is_space (hd fin)" "\<not> is_space (last fin)"
      using clean_line_shape [OF assms] False by auto
    have "strip (''Final Answer: '' @ fin) = ''Final Answer: '' @ fin"
      using sp sh False by (intro strip_fixed) simp
    then have "strip (''Final Answer: '' @ fin) = ''Final Answer:'' @ ('' '' @ fin)" by simp
    moreover have "dropWhile is_space ('' '' @ fin) = fin" using sh False sp by (cases fin) auto
    ultimately show ?thesis
      using dot_star_end_plain [OF clean_line_no_LF [OF assms]] by metis
  qed
  then obtain r where l: "strip (''Final Answer: '' @ fin) = ''Final Answer:'' @ r"
    and d: "dot_star_end (dropWhile is_space r) = Some fin" by blast
  have 1: "match_step (''Final Answer:'' @ r) = None" using sp by (simp add: match_step_def)
  have "lower (''Final Answer:'' @ r) = ''final answer:'' @ lower r"
    by (simp only: lower_append lower_final_answer)
  then have 2: "starts_with (lower (''Final Answer:'' @ r)) ''final answer''" by simp
  have 3: "final_tail (drop 12 (''Final Answer:'' @ r)) = Some fin"
    using d sp by (simp add: final_tail_def)
  have "match_final (''Final Answer:'' @ r) = Some fin"
    unfolding match_final_def using 2 3 by simp
  moreover have "strip fin = fin" using assms by (simp add: clean_line_def)
  ultimately show ?thesis using l 1 by simp
qed

lemma parse_lines_reconstructed:
  assumes "\<forall>s \<in> set stps. clean_line s" "clean_line fin"
  shows "parse_lines
           (filter (\<lambda>l. l \<noteq> [])
              (map strip (map (\<lambda>(i, s). numbered_line (Suc i) s) (enumerate k stps)
                          @ [''Final Answer: '' @ fin])))
           (acc, f0)
         = (acc @ stps, fin)"
proof -
  define X where "X = ''Final Answer: '' @ fin"
  define F where "F = strip X"
  obtain g where F: "F \<noteq> []" "match_step F = None" "match_final F = Some g" "strip g = fin"
    using match_final_line [OF assms(2)] unfolding F_def X_def by blast
  have base: "parse_lines [F] (a, f) = (a, fin)" for a f
    using F by simp
  have "parse_lines
           (filter (\<lambda>l. l \<noteq> [])
              (map strip (map (\<lambda>(i, s). numbered_line (Suc i) s) (enumerate k stps) @ [X])))
           (acc, f0)
         = (acc @ stps, fin)"
    using assms(1)
  proof (induction stps arbitrary: k acc)
    case Nil
    have "filter (\<lambda>l. l \<noteq> []) (map strip (map (\<lambda>(i, s). numbered_line (Suc i) s) (enumerate k []) @ [X]))
            = [F]"
      using F(1) by (simp add: F_def)
    then show ?case using base by simp
  next
    case (Cons s stps)
    define L where "L = strip (numbered_line (Suc k) s)"
    obtain h where L: "L \<noteq> []" "match_step L = Some h" "strip h = s"
      using match_step_numbered [of s "Suc k"] Cons.prems unfolding L_def by auto
    define R where "R = filter (\<lambda>l. l \<noteq> [])
              (map strip (map (\<lambda>(i, s). numbered_line (Suc i) s) (enumerate (Suc k) stps) @ [X]))"
    have ih: "parse_lines R (acc @ [s], f0) = ((acc @ [s]) @ stps, fin)"
      unfolding R_def using Cons.prems by (intro Cons.IH) simp
    have "filter (\<lambda>l. l \<noteq> [])
              (map strip (map (\<lambda>(i, s). numbered_line (Suc i) s) (enumerate k (s # stps)) @ [X]))
            = L # R"
      using L(1) by (simp add: L_def R_def)
    moreover have "parse_lines (L # R) (acc, f0) = parse_lines R (acc @ [s], f0)"
      using L by simp
    ultimately show ?case using ih by simp
  qed
  then show ?thesis by (simp only: X_def)
qed

lemma numbered_line_plain:
  assumes "clean_line s"
  shows "numbered_line n s \<noteq> [] \<and> (\<forall>c \<in> set (numbered_line n s). \<not> is_linebreak c)"
proof -
  have d: "\<forall>c \<in> set (str_nat n). \<not> is_linebreak c"
    using str_nat_digits [of n] digit_not_linebreak by blast
  have p: "\<forall>c \<in> set ''. ''. \<not> is_linebreak c" by (simp add: is_linebreak_def)
  have b: "\<forall>c \<in> set s. \<not> is_linebreak c" using assms by (simp add: clean_line_def)
  have "set (numbered_line n s) = set (str_nat n) \<union> set ''. '' \<union> set s"
    by (simp only: numbered_line_def set_append Un_assoc)
  then have "\<forall>c \<in> set (numbered_line n s). \<not> is_linebreak c" using d p b by blast
  moreover have "numbered_line n s \<noteq> []" using str_nat_digits [of n] by (simp add: numbered_line_def)
  ultimately show ?thesis by blast
qed

lemma final_line_plain:
  assumes "clean_line fin"
  shows "\<forall>c \<in> set (''Final Answer: '' @ fin). \<not> is_linebreak c"
proof -
  have p: "\<forall>c \<in> set ''Final Answer: ''. \<not> is_linebreak c" by (simp add: is_linebreak_def)
  have b: "\<forall>c \<in> set fin. \<not> is_linebreak c" using assms by (simp add: clean_line_def)
  have "set (''Final Answer: '' @ fin) = set ''Final Answer: '' \<union> set fin"
    by (simp only: set_append)
  then show ?thesis using p b by blast
qed

lemma nonempty_lines_reconstruct:
  assumes "\<forall>s \<in> set stps. clean_line s" "clean_line fin"
  shows "nonempty_lines (reconstruct stps fin)
         = filter (\<lambda>l. l \<noteq> [])
              (map strip (map (\<lambda>(i, s). numbered_line (Suc i) s) (enumerate 0 stps)
                          @ [''Final Answer: '' @ fin]))"
proof -
  define X where "X = ''Final Answer: '' @ fin"
  define N where "N = map (\<lambda>(i, s). numbered_line (Suc i) s) (enumerate 0 stps)"
  have n: "l \<noteq> [] \<and> (\<forall>c \<in> set l. \<not> is_linebreak c)" if "l \<in> set N" for l
  proof -
    have "\<exists>i s. l = numbered_line (Suc i) s \<and> (i, s) \<in> set (enumerate 0 stps)"
      using that unfolding N_def by auto
    then obtain i s where l: "l = numbered_line (Suc i) s" and m: "(i, s) \<in> set (enumerate 0 stps)"
      by blast
    have "s \<in> set stps" using m by (auto simp: in_set_enumerate_eq)
    then have "clean_line s" using assms(1) by blast
    then show ?thesis unfolding l by (rule numbered_line_plain)
  qed
  have "X \<noteq> []" unfolding X_def by simp
  moreover have "\<forall>c \<in> set X. \<not> is_linebreak c"
    unfolding X_def by (rule final_line_plain [OF assms(2)])
  ultimately have x: "X \<noteq> [] \<and> (\<forall>c \<in> set X. \<not> is_linebreak c)" by blast
  have "\<forall>l \<in> set (N @ [X]). l \<noteq> [] \<and> (\<forall>c \<in> set l. \<not> is_linebreak c)"
  proof
    fix l assume "l \<in> set (N @ [X])"
    then have "l \<in> set N \<or> l = X" by auto
    then show "l \<noteq> [] \<and> (\<forall>c \<in> set l. \<not> is_linebreak c)" using n x by blast
  qed
  moreover have "N @ [X] \<noteq> []" by simp
  ultimately have "splitlines (join [LF] (N @ [X])) = N @ [X]" by (rule splitlines_join [rotated])
  then have "nonempty_lines (join [LF] (N @ [X])) = filter (\<lambda>l. l \<noteq> []) (map strip (N @ [X]))"
    by (simp only: nonempty_lines_def)
  then show ?thesis by (simp only: reconstruct_def N_def X_def)
qed

text \<open>
  C8. The parser is idempotent under reconstruction: when a parse result is joined back
  into the numbered lines \<open>1. ...\<close>, \<open>2. ...\<close> followed by the line \<open>Final Answer: ...\<close>,
  parsing that text gives the same steps, the same final answer and the same confidence.
\<close>

theorem parse_reconstruct_idempotent:
  assumes "parse_generation_result gen_text = (stps, fin, conf)"
  shows "parse_generation_result (reconstruct stps fin) = (stps, fin, conf)"
proof -
  have c: "\<forall>s \<in> set stps. clean_line s" "clean_line fin"
    and g: "last_line_guess (stps, fin) = (stps, fin)" and k: "conf = 6 / 10"
    using parse_result_clean [OF assms] by auto
  have "parse_lines (nonempty_lines (reconstruct stps fin)) ([], []) = ([] @ stps, fin)"
    unfolding nonempty_lines_reconstruct [OF c] by (rule parse_lines_reconstructed [OF c])
  then show ?thesis using g k by (simp add: parse_generation_result_def)
qed

theorem parse_reconstruct_idempotent_witness:
  "parse_generation_result (reconstruct [''Apply power rule'', ''d/dx(x^3)=3x^2''] ''3x^2'')
     = ([''Apply power rule'', ''d/dx(x^3)=3x^2''], ''3x^2'', 6 / 10)"
proof -
  have h: "parse_generation_result example_generation
             = ([''Apply power rule'', ''d/dx(x^3)=3x^2''], ''3x^2'', 6 / 10)"
    by code_simp
  show ?thesis using parse_reconstruct_idempotent [OF h] .
qed

section \<open>Numbered lines\<close>










section \<open>The post-pass\<close>

lemma parse_lines_no_final:
  "\<forall>l \<in> set ls. match_step l = None \<longrightarrow> match_final l = None \<Longrightarrow>
     snd (parse_lines ls (stps, fin)) = fin"
  by (induction ls arbitrary: stps) (auto split: option.splits)

text \<open>
  C7. When no final answer was captured and there are steps, a last step made only of
  letters, digits, the operators \<open>- + / * ^\<close>, parentheses, periods, underscores and
  whitespace, with at most 8 whitespace-delimited tokens, becomes the final answer and
  leaves the steps. The parser of routes/ask.py has no such post-pass: the line
  \<open>1. x+1\<close> stays a step and the final answer stays empty.
\<close>

theorem routes_parser_leaves_last_step:
  "routes_parse_generation_result ''1. x+1'' = ([''1. x+1''], [], 6 / 10)
   \<and> looks_like_answer ''1. x+1''"
  by code_simp

text \<open>
  C7, as the code has it. The parser of backend/main.py ends with the post-pass: with an
  empty final answer and a non-empty steps list whose last step is non-empty, made only of
  the characters above and of at most 8 tokens, that step is moved to the final answer;
  otherwise steps and final answer are returned as the loop left them. The final answer
  is empty in particular when no line was captured as a final-answer line. The parser of
  routes/ask.py returns what its loop collected, with no post-pass.
\<close>

theorem last_line_guess_promotes:
  assumes "parse_lines (nonempty_lines gen_text) ([], []) = (stps, fin)"
  shows "(fin = [] \<and> stps \<noteq> [] \<and> last stps \<noteq> []
            \<and> (\<forall>c \<in> set (last stps). is_upper c \<or> is_lower c \<or> is_digit c
                   \<or> c \<in> {CHR ''-'', CHR ''+'', CHR ''/'', CHR ''*'', CHR ''^'', CHR ''('', CHR '')'',
                           CHR ''.'', CHR ''_''}
                   \<or> is_space c)
            \<and> length (split_str (last stps)) \<le> 8
          \<longrightarrow> parse_generation_result gen_text = (butlast stps, last stps, 6 / 10))
       \<and> (\<not> (fin = [] \<and> stps \<noteq> [] \<and> last stps \<noteq> []
            \<and> (\<forall>c \<in> set (last stps). is_upper c \<or> is_lower c \<or> is_digit c
                   \<or> c \<in> {CHR ''-'', CHR ''+'', CHR ''/'', CHR ''*'', CHR ''^'', CHR ''('', CHR '')'',
                           CHR ''.'', CHR ''_''}
                   \<or> is_space c)
            \<and> length (split_str (last stps)) \<le> 8)
          \<longrightarrow> parse_generation_result gen_text = (stps, fin, 6 / 10))
       \<and> ((\<forall>l \<in> set (nonempty_lines gen_text). match_step l = None \<longrightarrow> match_final l = None)
          \<longrightarrow> fin = [])
       \<and> routes_parse_generation_result gen_text
           = (fst (routes_parse_lines (nonempty_lines gen_text) ([], [])),
              snd (routes_parse_lines (nonempty_lines gen_text) ([], [])), 6 / 10)"
proof -
  have la: "looks_like_answer s \<longleftrightarrow>
      s \<noteq> [] \<and> (\<forall>c \<in> set s. is_upper c \<or> is_lower c \<or> is_digit c
                   \<or> c \<in> {CHR ''-'', CHR ''+'', CHR ''/'', CHR ''*'', CHR ''^'', CHR ''('', CHR '')'',
                           CHR ''.'', CHR ''_''}
                   \<or> is_space c)
      \<and> length (split_str s) \<le> 8" for s
    by (simp add: looks_like_answer_def list_all_iff answer_char_def)
  have 1: "parse_generation_result gen_text =
      (if fin = [] \<and> stps \<noteq> [] \<and> looks_like_answer (last stps)
       then (butlast stps, last stps, 6 / 10) else (stps, fin, 6 / 10))"
    by (simp add: parse_generation_result_def assms last_line_guess_def)
  have 2: "(\<forall>l \<in> set (nonempty_lines gen_text). match_step l = None \<longrightarrow> match_final l = None)
          \<longrightarrow> fin = []"
    using parse_lines_no_final [of "nonempty_lines gen_text" "[]" "[]"] assms by auto
  have 3: "routes_parse_generation_result gen_text
           = (fst (routes_parse_lines (nonempty_lines gen_text) ([], [])),
              snd (routes_parse_lines (nonempty_lines gen_text) ([], [])), 6 / 10)"
    by (simp add: routes_parse_generation_result_def split: prod.splits)
  show ?thesis unfolding 1 la using 2 3 by simp
qed

theorem last_line_guess_promotes_witness:
  "parse_generation_result (''1) first, do this'' @ [LF] @ '' 2 . x+1 '')
     = ([''first, do this''], ''x+1'', 6 / 10)"
proof -
  let ?t = "''1) first, do this'' @ [LF] @ '' 2 . x+1 ''"
  have h: "parse_lines (nonempty_lines ?t) ([], []) = ([''first, do this'', ''x+1''], [])"
    by code_simp
  have c: "[] = ([]::string) \<and> [''first, do this'', ''x+1''] \<noteq> []
            \<and> last [''first, do this'', ''x+1''] \<noteq> []
            \<and> (\<forall>c \<in> set (last [''first, do this'', ''x+1'']). is_upper c \<or> is_lower c \<or> is_digit c
                   \<or> c \<in> {CHR ''-'', CHR ''+'', CHR ''/'', CHR ''*'', CHR ''^'', CHR ''('', CHR '')'',
                           CHR ''.'', CHR ''_''}
                   \<or> is_space c)
            \<and> length (split_str (last [''first, do this'', ''x+1''])) \<le> 8"
    by (simp add: is_lower_def is_digit_def split_str_def is_space_def)
  show ?thesis using last_line_guess_promotes [OF h, THEN conjunct1] c by simp
qed

end
